theory Spec2Isabelle
  imports Complex_Main "HOL-Library.Word" "HOL-Library.Sublist" "HOL-Library.AList"
begin

section \<open>The monitoring collector of the Stackdriver exporter\<close>

text \<open>
  A shallow embedding of \<^verbatim>\<open>collectors/monitoring_collector.go\<close>. Go structs are records,
  pointers that the code dereferences are options (a nil dereference is the error
  \<open>Panic\<close>), \<^verbatim>\<open>int64\<close>, \<^verbatim>\<open>uint64\<close> and \<^verbatim>\<open>time.Duration\<close> are 64-bit words, and the calls
  into the standard library and the API client are parameters.
\<close>

subsection \<open>Errors\<close>

datatype error =
    Panic
  | UnknownDistributionBuckets
  | EndTimeParseError string
  | TimeSeriesMetricsError string
  | IngestDelayParseError string
  | ApiError string

subsection \<open>Values of type float64\<close>

text \<open>
  A \<^verbatim>\<open>float64\<close> is a finite value, an infinity or NaN. The finite values are a subset of the
  reals (the two zeros are one value here, as they are for Go's \<^verbatim>\<open>==\<close>). No rounding is
  modelled: the arithmetic the code performs on floats is the parameter \<open>float_ops\<close>.
\<close>

datatype float64 = Fin real | PosInf | NegInf | NaN

text \<open>Go's \<^verbatim>\<open>==\<close> on floats, which also decides the identity of map keys: NaN equals nothing.\<close>

definition feq :: "float64 \<Rightarrow> float64 \<Rightarrow> bool" where
  "feq a b = (a \<noteq> NaN \<and> a = b)"

record float_ops =
  fadd :: "float64 \<Rightarrow> float64 \<Rightarrow> float64"
  fmul :: "float64 \<Rightarrow> float64 \<Rightarrow> float64"
  fpow :: "float64 \<Rightarrow> float64 \<Rightarrow> float64"
  float64_of_int :: "int \<Rightarrow> float64"

subsection \<open>A map from float64 to uint64\<close>

text \<open>
  \<^verbatim>\<open>map[float64]uint64\<close> as an association list in insertion order. An assignment replaces
  the entry whose key is \<^verbatim>\<open>==\<close> to the new key and adds an entry otherwise, so every
  assignment under a NaN key adds an entry that no lookup finds. A lookup of a missing key
  gives the zero value.
\<close>

type_synonym buckets = "(float64 \<times> 64 word) list"

fun bucket_put :: "float64 \<Rightarrow> 64 word \<Rightarrow> buckets \<Rightarrow> buckets" where
  "bucket_put k v [] = [(k, v)]"
| "bucket_put k v ((k', v') # m) =
     (if feq k' k then (k, v) # m else (k', v') # bucket_put k v m)"

fun bucket_get :: "buckets \<Rightarrow> float64 \<Rightarrow> 64 word option" where
  "bucket_get [] k = None"
| "bucket_get ((k', v') # m) k = (if feq k' k then Some v' else bucket_get m k)"

definition bucket_index :: "buckets \<Rightarrow> float64 \<Rightarrow> 64 word" where
  "bucket_index m k = (case bucket_get m k of None \<Rightarrow> 0 | Some v \<Rightarrow> v)"

subsection \<open>Distributions\<close>

record Explicit =
  Bounds :: "float64 list"

record Linear =
  lin_NumFiniteBuckets :: "64 word"
  lin_Offset :: float64
  lin_Width :: float64

record Exponential =
  exp_GrowthFactor :: float64
  exp_NumFiniteBuckets :: "64 word"
  exp_Scale :: float64

record BucketOptions =
  ExplicitBuckets :: "Explicit option"
  ExponentialBuckets :: "Exponential option"
  LinearBuckets :: "Linear option"

record Distribution =
  BucketCounts :: "64 word list"
  dist_BucketOptions :: "BucketOptions option"

subsection \<open>Slices of float64\<close>

text \<open>
  \<^verbatim>\<open>make([]float64, n)\<close> panics on a negative length and gives \<open>n\<close> zeros otherwise (the
  limit of what can be allocated is not modelled). The length is a Go \<^verbatim>\<open>int\<close>, read
  from a 64-bit word as a signed value.
\<close>

definition make_float64 :: "int \<Rightarrow> error + float64 list" where
  "make_float64 n = (if n < 0 then Inl Panic else Inr (replicate (nat n) (Fin 0)))"

text \<open>\<^verbatim>\<open>copy(dst, src)\<close> overwrites the first \<open>min (len dst) (len src)\<close> elements of \<open>dst\<close>.\<close>

definition copy_slice :: "'a list \<Rightarrow> 'a list \<Rightarrow> 'a list" where
  "copy_slice dst src =
     (let n = min (length dst) (length src) in take n src @ drop n dst)"

text \<open>\<^verbatim>\<open>s[i] = v\<close> with the index check of the runtime.\<close>

definition slice_set :: "'a list \<Rightarrow> int \<Rightarrow> 'a \<Rightarrow> error + 'a list" where
  "slice_set s i v =
     (if 0 \<le> i \<and> i < int (length s) then Inr (s[nat i := v]) else Inl Panic)"

text \<open>
  The loop \<^verbatim>\<open>for i := 0; i <= num; i++ { bucketKeys[i] = f(i) }\<close>: the indices from 0
  to \<open>num\<close> in order, stopping at the first failed index check.
\<close>

fun fill_keys :: "(int \<Rightarrow> float64) \<Rightarrow> int list \<Rightarrow> float64 list \<Rightarrow> error + float64 list" where
  "fill_keys f [] ks = Inr ks"
| "fill_keys f (i # is) ks =
     (case slice_set ks i (f i) of
        Inl e \<Rightarrow> Inl e
      | Inr ks' \<Rightarrow> fill_keys f is ks')"

subsection \<open>generateHistogramBuckets\<close>

definition linear_key :: "float_ops \<Rightarrow> Linear \<Rightarrow> int \<Rightarrow> float64" where
  "linear_key ops l i =
     fadd ops (lin_Offset l) (fmul ops (float64_of_int ops i) (lin_Width l))"

definition exponential_key :: "float_ops \<Rightarrow> Exponential \<Rightarrow> int \<Rightarrow> float64" where
  "exponential_key ops x i =
     fmul ops (exp_Scale x) (fpow ops (exp_GrowthFactor x) (float64_of_int ops i))"

text \<open>
  The \<^verbatim>\<open>switch\<close> that fills \<^verbatim>\<open>bucketKeys\<close>, up to the assignment of the last key.
  \<^verbatim>\<open>num + 2\<close> is computed on 64-bit integers and wraps.
\<close>

definition variant_keys :: "float_ops \<Rightarrow> BucketOptions \<Rightarrow> error + float64 list" where
  "variant_keys ops opts =
     (case ExplicitBuckets opts of
        Some e \<Rightarrow>
          (case make_float64 (int (length (Bounds e)) + 1) of
             Inl err \<Rightarrow> Inl err
           | Inr ks \<Rightarrow> Inr (copy_slice ks (Bounds e)))
      | None \<Rightarrow>
     (case LinearBuckets opts of
        Some l \<Rightarrow>
          (let num = lin_NumFiniteBuckets l in
           case make_float64 (sint (num + 2)) of
             Inl err \<Rightarrow> Inl err
           | Inr ks \<Rightarrow> fill_keys (linear_key ops l) [0 .. sint num] ks)
      | None \<Rightarrow>
     (case ExponentialBuckets opts of
        Some x \<Rightarrow>
          (let num = exp_NumFiniteBuckets x in
           case make_float64 (sint (num + 2)) of
             Inl err \<Rightarrow> Inl err
           | Inr ks \<Rightarrow> fill_keys (exponential_key ops x) [0 .. sint num] ks)
      | None \<Rightarrow> Inl UnknownDistributionBuckets)))"

text \<open>The keys after \<^verbatim>\<open>bucketKeys[len(bucketKeys)-1] = math.Inf(1)\<close>.\<close>

definition bucketKeys :: "float_ops \<Rightarrow> Distribution option \<Rightarrow> error + float64 list" where
  "bucketKeys ops distribution =
     (case distribution of
        None \<Rightarrow> Inl Panic
      | Some d \<Rightarrow>
     (case dist_BucketOptions d of
        None \<Rightarrow> Inl Panic
      | Some opts \<Rightarrow>
     (case variant_keys ops opts of
        Inl err \<Rightarrow> Inl err
      | Inr ks \<Rightarrow> slice_set ks (int (length ks) - 1) PosInf)))"

text \<open>
  The loop over \<^verbatim>\<open>bucketKeys\<close>: \<open>i\<close> is the index of the next key, \<open>m\<close> the map so far and
  \<open>lst\<close> the variable \<^verbatim>\<open>last\<close>, which is read back from the map after each assignment.
\<close>

fun count_buckets ::
  "64 word list \<Rightarrow> nat \<Rightarrow> float64 list \<Rightarrow> buckets \<Rightarrow> 64 word \<Rightarrow> buckets" where
  "count_buckets cnts i [] m lst = m"
| "count_buckets cnts i (b # bs) m lst =
     (if length cnts > i
      then (let m' = bucket_put b (cnts ! i + lst) m
            in count_buckets cnts (Suc i) bs m' (bucket_index m' b))
      else count_buckets cnts (Suc i) bs (bucket_put b lst m) lst)"

definition generateHistogramBuckets ::
  "float_ops \<Rightarrow> Distribution option \<Rightarrow> error + buckets" where
  "generateHistogramBuckets ops distribution =
     (case bucketKeys ops distribution of
        Inl err \<Rightarrow> Inl err
      | Inr ks \<Rightarrow>
          (case distribution of
             None \<Rightarrow> Inl Panic
           | Some d \<Rightarrow> Inr (count_buckets (BucketCounts d) 0 ks [] 0)))"

subsection \<open>Time series\<close>

text \<open>
  The types of the API client that the collector reads. A nested message is a pointer, so
  an option; the elements of a slice are taken to be non-nil. A Go map of labels is the
  list of its entries in the order in which \<^verbatim>\<open>range\<close> visits them, which the runtime
  chooses. An instant of time is the number of nanoseconds since the Unix epoch, so
  \<^verbatim>\<open>time.Unix(0, 0)\<close> is 0.
\<close>

type_synonym labels = "(string \<times> string) list"

record TimeInterval =
  EndTime :: string

record TypedValue =
  BoolValue :: "bool option"
  DistributionValue :: "Distribution option"
  DoubleValue :: "float64 option"
  Int64Value :: "64 word option"

record Point =
  Interval :: "TimeInterval option"
  Value :: "TypedValue option"

record Metric =
  metric_Labels :: labels
  metric_Type :: string

record MonitoredResource =
  resource_Labels :: labels
  resource_Type :: string

record MonitoredResourceMetadata =
  SystemLabels :: "string option"

record TimeSeries =
  ts_Metadata :: "MonitoredResourceMetadata option"
  ts_Metric :: "Metric option"
  MetricKind :: string
  Points :: "Point list"
  ts_Resource :: "MonitoredResource option"
  ValueType :: string

record ListTimeSeriesResponse =
  resp_TimeSeries :: "TimeSeries list"
  resp_NextPageToken :: string

record MetricDescriptorMetadata =
  IngestDelay :: string

record MetricDescriptor =
  md_Type :: string
  md_Unit :: string
  md_Metadata :: "MetricDescriptorMetadata option"

subsection \<open>The collector and what it calls\<close>

record MetricFilter =
  mf_TargetedMetricPrefix :: string
  FilterQuery :: string

record MetricAggregationConfig =
  mac_TargetedMetricPrefix :: string
  AlignmentPeriod :: string
  CrossSeriesReducer :: string
  GroupByFields :: "string list"
  PerSeriesAligner :: string

record MonitoringCollector =
  projectID :: string
  metricsTypePrefixes :: "string list"
  metricsFilters :: "MetricFilter list"
  metricsAggregationConfigs :: "MetricAggregationConfig list"
  metricsInterval :: "64 word"
  metricsOffset :: "64 word"
  metricsIngestDelay :: bool
  collectorFillMissingLabels :: bool
  monitoringDropDelegatedProjects :: bool
  aggregateDeltas :: bool

datatype PromValueType = CounterValue | GaugeValue | UntypedValue

text \<open>
  What the code calls outside this file: float arithmetic, \<^verbatim>\<open>time.Parse\<close> with the layout
  RFC3339Nano, \<^verbatim>\<open>time.ParseDuration\<close>, \<^verbatim>\<open>json.Unmarshal\<close> into a map of strings (the entries
  of the decoded map; a JSON \<^verbatim>\<open>null\<close> decodes to no entries), and the error of
  \<^verbatim>\<open>newTimeSeriesMetrics\<close>. \<open>None\<close> is a failed call.
\<close>

record externals =
  floats :: float_ops
  parseTime :: "string \<Rightarrow> int option"
  parseDuration :: "string \<Rightarrow> 64 word option"
  jsonUnmarshal :: "string \<Rightarrow> labels option"
  newTimeSeriesMetrics :: "MetricDescriptor \<Rightarrow> string option"

text \<open>
  The two calls that hand a sample over, \<^verbatim>\<open>CollectNewConstMetric\<close> and
  \<^verbatim>\<open>CollectNewConstHistogram\<close>, with their arguments in the order of the source.
\<close>

datatype emission =
    ConstMetric TimeSeries int "string list" PromValueType float64 "string list" string
  | ConstHistogram TimeSeries int "string list" Distribution buckets "string list" string

subsection \<open>reportTimeSeriesMetrics\<close>

fun keyExists :: "string list \<Rightarrow> string \<Rightarrow> bool" where
  "keyExists [] key = False"
| "keyExists (item # labelKeys) key = (if item = key then True else keyExists labelKeys key)"

text \<open>One \<^verbatim>\<open>range\<close> loop over a map of labels, appending the keys that are not there yet.\<close>

fun add_labels :: "labels \<Rightarrow> string list \<times> string list \<Rightarrow> string list \<times> string list" where
  "add_labels [] (labelKeys, labelValues) = (labelKeys, labelValues)"
| "add_labels ((key, val) # rest) (labelKeys, labelValues) =
     (if \<not> keyExists labelKeys key
      then add_labels rest (labelKeys @ [key], labelValues @ [val])
      else add_labels rest (labelKeys, labelValues))"

text \<open>The system labels that are added: none without metadata, without the raw message or when decoding fails.\<close>

definition system_labels :: "externals \<Rightarrow> TimeSeries \<Rightarrow> labels" where
  "system_labels ext timeSeries =
     (case ts_Metadata timeSeries of
        None \<Rightarrow> []
      | Some meta \<Rightarrow>
     (case SystemLabels meta of
        None \<Rightarrow> []
      | Some raw \<Rightarrow>
     (case jsonUnmarshal ext raw of
        None \<Rightarrow> []
      | Some systemLabels \<Rightarrow> systemLabels)))"

definition assemble_labels ::
  "externals \<Rightarrow> MetricDescriptor \<Rightarrow> TimeSeries \<Rightarrow> error + string list \<times> string list" where
  "assemble_labels ext metricDescriptor timeSeries =
     (case ts_Metric timeSeries of
        None \<Rightarrow> Inl Panic
      | Some metric \<Rightarrow>
     (case ts_Resource timeSeries of
        None \<Rightarrow> Inl Panic
      | Some resource \<Rightarrow>
          Inr (add_labels (system_labels ext timeSeries)
                (add_labels (resource_Labels resource)
                  (add_labels (metric_Labels metric)
                    ([''unit''], [md_Unit metricDescriptor]))))))"

text \<open>The end of a point's interval as \<^verbatim>\<open>time.Parse\<close> reads it.\<close>

definition point_end :: "externals \<Rightarrow> Point \<Rightarrow> error + int" where
  "point_end ext point =
     (case Interval point of
        None \<Rightarrow> Inl Panic
      | Some interval \<Rightarrow>
     (case parseTime ext (EndTime interval) of
        None \<Rightarrow> Inl (EndTimeParseError (EndTime interval))
      | Some endTime \<Rightarrow> Inr endTime))"

text \<open>
  The loop over the points of one series, on the variables \<^verbatim>\<open>newestEndTime\<close> and
  \<^verbatim>\<open>newestTSPoint\<close>. \<^verbatim>\<open>endTime.After(newestEndTime)\<close> is strict.
\<close>

fun newest_point ::
  "externals \<Rightarrow> Point list \<Rightarrow> int \<Rightarrow> Point option \<Rightarrow> error + int \<times> Point option" where
  "newest_point ext [] newestEndTime newestTSPoint = Inr (newestEndTime, newestTSPoint)"
| "newest_point ext (point # points) newestEndTime newestTSPoint =
     (case point_end ext point of
        Inl err \<Rightarrow> Inl err
      | Inr endTime \<Rightarrow>
          (if endTime > newestEndTime
           then newest_point ext points endTime (Some point)
           else newest_point ext points newestEndTime newestTSPoint))"

text \<open>The loop that looks for a \<^verbatim>\<open>project_id\<close> label of another project.\<close>

fun dropDelegatedProject :: "string \<Rightarrow> (string \<times> string) list \<Rightarrow> bool" where
  "dropDelegatedProject pid [] = False"
| "dropDelegatedProject pid ((k, v) # rest) =
     (if k = ''project_id'' \<and> v \<noteq> pid then True else dropDelegatedProject pid rest)"

text \<open>The \<^verbatim>\<open>switch\<close> on the metric kind; \<open>None\<close> is the \<^verbatim>\<open>default\<close> branch.\<close>

definition metricKindSwitch :: "MonitoringCollector \<Rightarrow> string \<Rightarrow> PromValueType option" where
  "metricKindSwitch c kind =
     (if kind = ''GAUGE'' then Some GaugeValue
      else if kind = ''DELTA''
        then (if aggregateDeltas c then Some CounterValue else Some GaugeValue)
      else if kind = ''CUMULATIVE'' then Some CounterValue
      else None)"

text \<open>\<^verbatim>\<open>newestTSPoint.Value\<close>, through two pointers.\<close>

definition point_value :: "Point option \<Rightarrow> error + TypedValue" where
  "point_value newestTSPoint =
     (case newestTSPoint of
        None \<Rightarrow> Inl Panic
      | Some point \<Rightarrow>
     (case Value point of
        None \<Rightarrow> Inl Panic
      | Some v \<Rightarrow> Inr v))"

text \<open>The three scalar branches of the \<^verbatim>\<open>switch\<close> on the value type.\<close>

definition scalar_value :: "externals \<Rightarrow> string \<Rightarrow> Point option \<Rightarrow> error + float64" where
  "scalar_value ext valueType newestTSPoint =
     (case point_value newestTSPoint of
        Inl err \<Rightarrow> Inl err
      | Inr v \<Rightarrow>
          (if valueType = ''BOOL''
           then (case BoolValue v of
                   None \<Rightarrow> Inl Panic
                 | Some b \<Rightarrow> Inr (if b then Fin 1 else Fin 0))
           else if valueType = ''INT64''
           then (case Int64Value v of
                   None \<Rightarrow> Inl Panic
                 | Some n \<Rightarrow> Inr (float64_of_int (floats ext) (sint n)))
           else (case DoubleValue v of
                   None \<Rightarrow> Inl Panic
                 | Some x \<Rightarrow> Inr x)))"

text \<open>
  The \<^verbatim>\<open>switch\<close> on the value type with the call that follows it: the sample handed over
  for the series, if any.
\<close>

definition valueTypeSwitch ::
  "externals \<Rightarrow> TimeSeries \<Rightarrow> int \<Rightarrow> Point option \<Rightarrow> string list \<Rightarrow> string list \<Rightarrow>
   PromValueType \<Rightarrow> error + emission option" where
  "valueTypeSwitch ext timeSeries newestEndTime newestTSPoint labelKeys labelValues metricValueType =
     (if ValueType timeSeries \<in> {''BOOL'', ''INT64'', ''DOUBLE''}
      then (case scalar_value ext (ValueType timeSeries) newestTSPoint of
              Inl err \<Rightarrow> Inl err
            | Inr metricValue \<Rightarrow>
                Inr (Some (ConstMetric timeSeries newestEndTime labelKeys metricValueType
                             metricValue labelValues (MetricKind timeSeries))))
      else if ValueType timeSeries = ''DISTRIBUTION''
      then (case point_value newestTSPoint of
              Inl err \<Rightarrow> Inl err
            | Inr v \<Rightarrow>
                (case generateHistogramBuckets (floats ext) (DistributionValue v) of
                   Inl Panic \<Rightarrow> Inl Panic
                 | Inl err \<Rightarrow> Inr None
                 | Inr buckets \<Rightarrow>
                     (case DistributionValue v of
                        None \<Rightarrow> Inl Panic
                      | Some d \<Rightarrow>
                          Inr (Some (ConstHistogram timeSeries newestEndTime labelKeys d buckets
                                       labelValues (MetricKind timeSeries))))))
      else Inr None)"

text \<open>
  The body of the loop over the series of a page. \<^verbatim>\<open>newestTSPoint\<close> is declared before that
  loop, so its value comes in from the series before and goes out to the next one;
  \<^verbatim>\<open>metricValue\<close> and \<^verbatim>\<open>metricValueType\<close> are assigned before each use. The result is the new
  \<^verbatim>\<open>newestTSPoint\<close> and the sample handed over, with \<open>None\<close> for a \<^verbatim>\<open>continue\<close>.
\<close>

definition series_body ::
  "externals \<Rightarrow> MonitoringCollector \<Rightarrow> MetricDescriptor \<Rightarrow> TimeSeries \<Rightarrow> Point option \<Rightarrow>
   error + Point option \<times> emission option" where
  "series_body ext c metricDescriptor timeSeries newestTSPoint0 =
     (case newest_point ext (Points timeSeries) 0 newestTSPoint0 of
        Inl err \<Rightarrow> Inl err
      | Inr (newestEndTime, newestTSPoint) \<Rightarrow>
     (case assemble_labels ext metricDescriptor timeSeries of
        Inl err \<Rightarrow> Inl err
      | Inr (labelKeys, labelValues) \<Rightarrow>
          (if monitoringDropDelegatedProjects c
              \<and> dropDelegatedProject (projectID c) (zip labelKeys labelValues)
           then Inr (newestTSPoint, None)
           else (case metricKindSwitch c (MetricKind timeSeries) of
                   None \<Rightarrow> Inr (newestTSPoint, None)
                 | Some metricValueType \<Rightarrow>
                     (case valueTypeSwitch ext timeSeries newestEndTime newestTSPoint
                             labelKeys labelValues metricValueType of
                        Inl err \<Rightarrow> Inl err
                      | Inr sample \<Rightarrow> Inr (newestTSPoint, sample))))))"

text \<open>
  The loop over the series: the samples handed over so far and the error returned, if any.
  A returned error leaves the samples of the earlier series handed over.
\<close>

fun series_loop ::
  "externals \<Rightarrow> MonitoringCollector \<Rightarrow> MetricDescriptor \<Rightarrow> TimeSeries list \<Rightarrow> Point option \<Rightarrow>
   emission list \<Rightarrow> emission list \<times> error option" where
  "series_loop ext c metricDescriptor [] newestTSPoint out = (out, None)"
| "series_loop ext c metricDescriptor (timeSeries # rest) newestTSPoint out =
     (case series_body ext c metricDescriptor timeSeries newestTSPoint of
        Inl err \<Rightarrow> (out, Some err)
      | Inr (newestTSPoint', sample) \<Rightarrow>
          series_loop ext c metricDescriptor rest newestTSPoint'
            (out @ (case sample of None \<Rightarrow> [] | Some s \<Rightarrow> [s])))"

text \<open>
  \<^verbatim>\<open>reportTimeSeriesMetrics\<close>: the samples handed over for the page and the error returned.
  The call of \<^verbatim>\<open>Complete\<close> after the loop, made when no error is returned, is left out.
\<close>

definition reportTimeSeriesMetrics ::
  "externals \<Rightarrow> MonitoringCollector \<Rightarrow> ListTimeSeriesResponse \<Rightarrow> MetricDescriptor \<Rightarrow>
   emission list \<times> error option" where
  "reportTimeSeriesMetrics ext c page metricDescriptor =
     (case newTimeSeriesMetrics ext metricDescriptor of
        Some msg \<Rightarrow> ([], Some (TimeSeriesMetricsError msg))
      | None \<Rightarrow> series_loop ext c metricDescriptor (resp_TimeSeries page) None [])"

subsection \<open>The descriptor cache restricted to Google metrics\<close>











subsection \<open>reportMonitoringMetrics: the unit of one descriptor\<close>

text \<open>
  \<^verbatim>\<open>t.Add(d)\<close> on an instant and a duration of 64 bits, and \<^verbatim>\<open>d * -1\<close>, which wraps.
\<close>

definition time_Add :: "int \<Rightarrow> 64 word \<Rightarrow> int" where
  "time_Add t d = t + sint d"

definition negate :: "64 word \<Rightarrow> 64 word" where
  "negate d = d * (- 1)"

text \<open>
  The request that the unit of a descriptor builds: the filter, the interval (as instants;
  the code passes them on formatted) and the aggregation of the first matching
  configuration.
\<close>

record TimeSeriesListCall =
  call_Filter :: string
  call_IntervalStartTime :: int
  call_IntervalEndTime :: int
  call_Aggregation :: "MetricAggregationConfig option"

definition dquote :: string where
  "dquote = [CHR 0x22]"

definition base_filter :: "MonitoringCollector \<Rightarrow> MetricDescriptor \<Rightarrow> string" where
  "base_filter c metricDescriptor =
     (if monitoringDropDelegatedProjects c
      then ''project='' @ dquote @ projectID c @ dquote @ '' AND metric.type='' @ dquote
           @ md_Type metricDescriptor @ dquote
      else ''metric.type='' @ dquote @ md_Type metricDescriptor @ dquote)"

fun extra_filters :: "MetricFilter list \<Rightarrow> string \<Rightarrow> string \<Rightarrow> string" where
  "extra_filters [] ty flt = flt"
| "extra_filters (ef # rest) ty flt =
     (if prefix (mf_TargetedMetricPrefix ef) ty
      then extra_filters rest ty (flt @ '' AND ('' @ FilterQuery ef @ '')'')
      else extra_filters rest ty flt)"

fun first_aggregation :: "MetricAggregationConfig list \<Rightarrow> string \<Rightarrow> MetricAggregationConfig option" where
  "first_aggregation [] ty = None"
| "first_aggregation (ef # rest) ty =
     (if prefix (mac_TargetedMetricPrefix ef) ty then Some ef else first_aggregation rest ty)"

text \<open>
  The interval of the unit: its own copies of \<^verbatim>\<open>startTime\<close> and \<^verbatim>\<open>endTime\<close>, moved back by
  the ingest delay of its descriptor when the collector uses ingest delays and the
  descriptor declares one.
\<close>

definition unit_interval ::
  "externals \<Rightarrow> MonitoringCollector \<Rightarrow> MetricDescriptor \<Rightarrow> int \<Rightarrow> int \<Rightarrow> error + int \<times> int" where
  "unit_interval ext c metricDescriptor startTime endTime =
     (if metricsIngestDelay c
      then (case md_Metadata metricDescriptor of
              None \<Rightarrow> Inr (startTime, endTime)
            | Some meta \<Rightarrow>
                (if IngestDelay meta \<noteq> []
                 then (case parseDuration ext (IngestDelay meta) of
                         None \<Rightarrow> Inl (IngestDelayParseError (IngestDelay meta))
                       | Some ingestDelayDuration \<Rightarrow>
                           Inr (time_Add startTime (negate ingestDelayDuration),
                                time_Add endTime (negate ingestDelayDuration)))
                 else Inr (startTime, endTime)))
      else Inr (startTime, endTime))"

definition timeSeriesListCall ::
  "externals \<Rightarrow> MonitoringCollector \<Rightarrow> MetricDescriptor \<Rightarrow> int \<Rightarrow> int \<Rightarrow>
   error + TimeSeriesListCall" where
  "timeSeriesListCall ext c metricDescriptor startTime endTime =
     (case unit_interval ext c metricDescriptor startTime endTime of
        Inl err \<Rightarrow> Inl err
      | Inr (startTime', endTime') \<Rightarrow>
          Inr \<lparr> call_Filter = extra_filters (metricsFilters c) (md_Type metricDescriptor)
                                (base_filter c metricDescriptor),
                call_IntervalStartTime = startTime',
                call_IntervalEndTime = endTime',
                call_Aggregation =
                  first_aggregation (metricsAggregationConfigs c) (md_Type metricDescriptor) \<rparr>)"

text \<open>
  The monitoring service: the answer of \<^verbatim>\<open>timeSeriesListCall.Do()\<close> for a request and a page
  token (a nil page is \<open>None\<close>), and the answer of the descriptor listing for a filter and
  a page token.
\<close>

record ListMetricDescriptorsResponse =
  MetricDescriptors :: "MetricDescriptor list"
  NextPageToken :: string

record monitoringService =
  timeSeriesDo :: "TimeSeriesListCall \<Rightarrow> string \<Rightarrow> error + ListTimeSeriesResponse option"
  metricDescriptorsDo :: "string \<Rightarrow> string \<Rightarrow> error + ListMetricDescriptorsResponse"

text \<open>
  What one unit did: the request it issued, if it came to issue one, the samples it handed
  over and the error it sent to the error channel, if any. The counter of API calls and the
  log are left out. A panic ends the process; the model passes \<open>Panic\<close> on in the place
  of the error.
\<close>

record unit_result =
  issued :: "TimeSeriesListCall option"
  samples :: "emission list"
  sent :: "error option"

text \<open>
  The loop over the pages of the time series of one descriptor. The service may go on
  giving page tokens for ever, so the loop is a partial function: \<open>None\<close> is a loop that
  does not end.
\<close>

partial_function (option) timeSeries_pages ::
  "externals \<Rightarrow> monitoringService \<Rightarrow> MonitoringCollector \<Rightarrow> MetricDescriptor \<Rightarrow>
   TimeSeriesListCall \<Rightarrow> string \<Rightarrow> emission list \<Rightarrow> (emission list \<times> error option) option" where
  "timeSeries_pages ext svc c metricDescriptor call token out =
     (case timeSeriesDo svc call token of
        Inl err \<Rightarrow> Some (out, Some err)
      | Inr None \<Rightarrow> Some (out, None)
      | Inr (Some page) \<Rightarrow>
          (case reportTimeSeriesMetrics ext c page metricDescriptor of
             (new, Some err) \<Rightarrow> Some (out @ new, Some err)
           | (new, None) \<Rightarrow>
               (if resp_NextPageToken page = [] then Some (out @ new, None)
                else timeSeries_pages ext svc c metricDescriptor call
                       (resp_NextPageToken page) (out @ new))))"

text \<open>The body of the goroutine started for one descriptor.\<close>

definition descriptor_unit ::
  "externals \<Rightarrow> monitoringService \<Rightarrow> MonitoringCollector \<Rightarrow> MetricDescriptor \<Rightarrow> int \<Rightarrow> int \<Rightarrow>
   unit_result option" where
  "descriptor_unit ext svc c metricDescriptor startTime endTime =
     (case timeSeriesListCall ext c metricDescriptor startTime endTime of
        Inl err \<Rightarrow> Some \<lparr> issued = None, samples = [], sent = Some err \<rparr>
      | Inr call \<Rightarrow>
          (case timeSeries_pages ext svc c metricDescriptor call [] [] of
             None \<Rightarrow> None
           | Some (out, err) \<Rightarrow> Some \<lparr> issued = Some call, samples = out, sent = err \<rparr>))"

subsection \<open>reportMonitoringMetrics: the descriptors of one page or of one cache entry\<close>

text \<open>
  \<^verbatim>\<open>uniqueDescriptors\<close>: the map from type to descriptor, as the list of its entries. A
  later descriptor of the same type replaces the earlier one.
\<close>

fun uniqueDescriptors ::
  "MetricDescriptor list \<Rightarrow> (string \<times> MetricDescriptor) list \<Rightarrow> (string \<times> MetricDescriptor) list" where
  "uniqueDescriptors [] m = m"
| "uniqueDescriptors (descriptor # descriptors) m =
     uniqueDescriptors descriptors (AList.update (md_Type descriptor) descriptor m)"

text \<open>\<^verbatim>\<open><-errChannel\<close> on the closed channel: the first error in it, or nil.\<close>

fun first_error :: "error option list \<Rightarrow> error option" where
  "first_error [] = None"
| "first_error (None # rest) = first_error rest"
| "first_error (Some err # rest) = Some err"

text \<open>
  \<^verbatim>\<open>metricDescriptorsFunction\<close>, with the reading of the clock as \<open>now\<close>. One unit is started
  for every entry of \<^verbatim>\<open>uniqueDescriptors\<close>, each with the same \<^verbatim>\<open>startTime\<close> and \<^verbatim>\<open>endTime\<close>
  as its arguments, and the function returns when all of them have ended. The units run
  concurrently; the model lists them in the order of the entries and takes their errors in
  that order, where the scheduler decides the order in the channel.
\<close>

definition metricDescriptorsFunction ::
  "externals \<Rightarrow> monitoringService \<Rightarrow> MonitoringCollector \<Rightarrow> int \<Rightarrow> MetricDescriptor list \<Rightarrow>
   (unit_result list \<times> error option) option" where
  "metricDescriptorsFunction ext svc c now descriptors =
     (let endTime = time_Add now (negate (metricsOffset c));
          startTime = time_Add endTime (negate (metricsInterval c))
      in case those (map (\<lambda>(ty, metricDescriptor).
                            descriptor_unit ext svc c metricDescriptor startTime endTime)
                         (uniqueDescriptors descriptors []))
         of None \<Rightarrow> None
          | Some units \<Rightarrow> Some (units, first_error (map sent units)))"

subsection \<open>reportMonitoringMetrics: the unit of one prefix\<close>




subsection \<open>The walk over the boundaries as the specification words it\<close>

text \<open>
  The specification describes the counts as a walk over the boundaries that carries a
  running total: with a source count at index \<open>i\<close> the boundary gets that count plus the
  running total, which advances to this value; without one it gets the running total
  unchanged. This is the list of boundaries with the values of that walk, from index \<open>i\<close>
  and running total \<open>tot\<close> on. It is compared with \<open>count_buckets\<close> below.
\<close>

fun cumulative_walk ::
  "64 word list \<Rightarrow> nat \<Rightarrow> 64 word \<Rightarrow> float64 list \<Rightarrow> (float64 \<times> 64 word) list" where
  "cumulative_walk cnts i tot [] = []"
| "cumulative_walk cnts i tot (b # bs) =
     (if i < length cnts
      then (b, cnts ! i + tot) # cumulative_walk cnts (Suc i) (cnts ! i + tot) bs
      else (b, tot) # cumulative_walk cnts (Suc i) tot bs)"

subsection \<open>Inputs of the examples\<close>

text \<open>
  Arithmetic without rounding, for the examples: on their inputs the arithmetic of float64
  is exact as well. Infinite and NaN operands do not occur there and give NaN.
\<close>

fun exact_add :: "float64 \<Rightarrow> float64 \<Rightarrow> float64" where
  "exact_add (Fin a) (Fin b) = Fin (a + b)"
| "exact_add a b = NaN"

fun exact_mul :: "float64 \<Rightarrow> float64 \<Rightarrow> float64" where
  "exact_mul (Fin a) (Fin b) = Fin (a * b)"
| "exact_mul a b = NaN"

fun exact_pow :: "float64 \<Rightarrow> float64 \<Rightarrow> float64" where
  "exact_pow (Fin a) (Fin b) = Fin (a powr b)"
| "exact_pow a b = NaN"

definition exact_ops :: float_ops where
  "exact_ops = \<lparr> fadd = exact_add, fmul = exact_mul, fpow = exact_pow,
                 float64_of_int = (\<lambda>i. Fin (of_int i)) \<rparr>"

definition explicit_options :: "float64 list \<Rightarrow> BucketOptions" where
  "explicit_options bounds =
     \<lparr> ExplicitBuckets = Some \<lparr> Bounds = bounds \<rparr>, ExponentialBuckets = None,
       LinearBuckets = None \<rparr>"




definition distribution_of :: "64 word list \<Rightarrow> BucketOptions \<Rightarrow> Distribution" where
  "distribution_of cnts opts = \<lparr> BucketCounts = cnts, dist_BucketOptions = Some opts \<rparr>"

text \<open>
  Stand-ins for the library calls in the examples: each knows the few inputs the examples
  use and fails on every other input.
\<close>

definition example_parseTime :: "string \<Rightarrow> int option" where
  "example_parseTime s =
     (if s = ''1970-01-01T00:00:01Z'' then Some 1000000000
      else if s = ''1970-01-01T00:00:02Z'' then Some 2000000000
      else if s = ''1970-01-01T00:00:03Z'' then Some 3000000000
      else if s = ''1970-01-01T00:00:00Z'' then Some 0
      else None)"

definition example_parseDuration :: "string \<Rightarrow> 64 word option" where
  "example_parseDuration s = (if s = ''1s'' then Some 1000000000 else None)"

definition example_jsonUnmarshal :: "string \<Rightarrow> labels option" where
  \<open>example_jsonUnmarshal s =
     (if s = ''{"zone":"b","region":"r"}'' then Some [(''zone'', ''b''), (''region'', ''r'')]
      else None)\<close>

definition example_ext :: externals where
  "example_ext =
     \<lparr> floats = exact_ops, parseTime = example_parseTime,
       parseDuration = example_parseDuration, jsonUnmarshal = example_jsonUnmarshal,
       newTimeSeriesMetrics = (\<lambda>metricDescriptor. None) \<rparr>"

text \<open>A point with an \<^verbatim>\<open>int64\<close> value, a series of the value type INT64 and a collector.\<close>

definition int64_point :: "string \<Rightarrow> 64 word \<Rightarrow> Point" where
  "int64_point endTime n =
     \<lparr> Interval = Some \<lparr> EndTime = endTime \<rparr>,
       Value = Some \<lparr> BoolValue = None, DistributionValue = None, DoubleValue = None,
                      Int64Value = Some n \<rparr> \<rparr>"

definition example_series :: "string \<Rightarrow> Point list \<Rightarrow> TimeSeries" where
  \<open>example_series kind points =
     \<lparr> ts_Metadata = Some \<lparr> SystemLabels = Some ''{"zone":"b","region":"r"}'' \<rparr>,
       ts_Metric = Some \<lparr> metric_Labels = [(''zone'', ''a''), (''unit'', ''x'')],
                           metric_Type = ''custom.googleapis.com/m'' \<rparr>,
       MetricKind = kind,
       Points = points,
       ts_Resource = Some \<lparr> resource_Labels = [(''project_id'', ''p''), (''zone'', ''c'')],
                             resource_Type = ''gce_instance'' \<rparr>,
       ValueType = ''INT64'' \<rparr>\<close>

definition example_descriptor :: "string \<Rightarrow> string \<Rightarrow> MetricDescriptor" where
  "example_descriptor ty delay =
     \<lparr> md_Type = ty, md_Unit = ''1'', md_Metadata = Some \<lparr> IngestDelay = delay \<rparr> \<rparr>"

definition example_collector :: MonitoringCollector where
  "example_collector =
     \<lparr> projectID = ''p'', metricsTypePrefixes = [''custom.googleapis.com''],
       metricsFilters = [], metricsAggregationConfigs = [],
       metricsInterval = 300000000000, metricsOffset = 0, metricsIngestDelay = True,
       collectorFillMissingLabels = True, monitoringDropDelegatedProjects = False,
       aggregateDeltas = True \<rparr>"

text \<open>
  A service for the examples: a time series listing that answers with a nil page, and a
  descriptor listing of two pages that hold a descriptor of the same type each. The cache
  behind the examples keeps its entries in a list and never expires them.
\<close>

definition example_service :: monitoringService where
  "example_service =
     \<lparr> timeSeriesDo = (\<lambda>call token. Inr None),
       metricDescriptorsDo = (\<lambda>flt token.
         if token = []
         then Inr \<lparr> MetricDescriptors = [example_descriptor ''custom.googleapis.com/m'' []],
                    NextPageToken = ''next'' \<rparr>
         else Inr \<lparr> MetricDescriptors = [example_descriptor ''custom.googleapis.com/m'' []],
                    NextPageToken = [] \<rparr>) \<rparr>"


section \<open>Properties\<close>

subsection \<open>The boundaries of a distribution\<close>













lemma bucketKeys_last:
  assumes "bucketKeys ops dv = Inr ks"
  shows "ks \<noteq> [] \<and> last ks = PosInf"
proof -
  from assms obtain ks0 where s: "slice_set ks0 (int (length ks0) - 1) PosInf = Inr ks"
    by (auto simp: bucketKeys_def split: option.splits sum.splits)
  then have ne: "ks0 \<noteq> []" and eq: "ks = ks0[length ks0 - 1 := PosInf]"
    by (auto simp: slice_set_def nat_diff_distrib' split: if_splits)
  from ne eq show ?thesis
    by (simp add: last_list_update)
qed

subsection \<open>The counts of a distribution\<close>

lemma bucket_get_map_of: "k \<noteq> NaN \<Longrightarrow> bucket_get m k = map_of m k"
  by (induction m) (auto simp: feq_def)

lemma bucket_get_put_same: "k \<noteq> NaN \<Longrightarrow> bucket_get (bucket_put k v m) k = Some v"
  by (induction m) (auto simp: feq_def)

lemma map_of_bucket_put: "k \<noteq> NaN \<Longrightarrow> map_of (bucket_put k v m) = (map_of m)(k \<mapsto> v)"
  by (induction m) (auto simp: feq_def)

lemma count_buckets_walk:
  "NaN \<notin> set bs \<Longrightarrow>
   count_buckets cnts i bs m lst =
     foldl (\<lambda>m (b, v). bucket_put b v m) m (cumulative_walk cnts i lst bs)"
proof (induction bs arbitrary: i m lst)
  case Nil
  show ?case by simp
next
  case (Cons b bs)
  then have b: "b \<noteq> NaN" and bs: "NaN \<notin> set bs" by auto
  show ?case
    using Cons.IH [OF bs] b by (simp add: Let_def bucket_index_def bucket_get_put_same)
qed

lemma map_fst_cumulative_walk: "map fst (cumulative_walk cnts i tot bs) = bs"
  by (induction bs arbitrary: i tot) auto

lemma cumulative_walk_nth:
  "j < length bs \<Longrightarrow>
   cumulative_walk cnts i tot bs ! j = (bs ! j, tot + sum_list (take (Suc j) (drop i cnts)))"
proof (induction bs arbitrary: i tot j)
  case Nil
  then show ?case by simp
next
  case (Cons b bs)
  show ?case
  proof (cases "i < length cnts")
    case True
    then have d: "drop i cnts = cnts ! i # drop (Suc i) cnts"
      by (simp add: Cons_nth_drop_Suc)
    show ?thesis
    proof (cases j)
      case 0
      with True d show ?thesis by simp
    next
      case (Suc j')
      with Cons.prems have "j' < length bs" by simp
      from Cons.IH [OF this, of "Suc i" "cnts ! i + tot"] True Suc d show ?thesis
        by (simp add: add.assoc add.commute)
    qed
  next
    case False
    show ?thesis
    proof (cases j)
      case 0
      with False show ?thesis by simp
    next
      case (Suc j')
      with Cons.prems have "j' < length bs" by simp
      from Cons.IH [OF this, of "Suc i" tot] False Suc show ?thesis by simp
    qed
  qed
qed

lemma map_of_foldl_put:
  "NaN \<notin> fst ` set ws \<Longrightarrow>
   map_of (foldl (\<lambda>m (b, v). bucket_put b v m) m ws) = map_of m ++ map_of (rev ws)"
proof (induction ws arbitrary: m)
  case Nil
  show ?case by simp
next
  case (Cons w ws)
  obtain b v where w: "w = (b, v)" by (cases w)
  with Cons.prems have b: "b \<noteq> NaN" and ws: "NaN \<notin> fst ` set ws" by auto
  show ?case
    using Cons.IH [OF ws, of "bucket_put b v m"] b w
    by (simp add: map_of_bucket_put map_of_append) (auto simp: map_add_def fun_eq_iff split: option.splits)
qed

lemma map_of_rev_last_occurrence:
  "i < length ws \<Longrightarrow> \<forall>j. i < j \<and> j < length ws \<longrightarrow> fst (ws ! j) \<noteq> fst (ws ! i) \<Longrightarrow>
   map_of (rev ws) (fst (ws ! i)) = Some (snd (ws ! i))"
proof (induction ws rule: rev_induct)
  case Nil
  then show ?case by simp
next
  case (snoc w ws)
  show ?case
  proof (cases "i = length ws")
    case True
    then show ?thesis by (cases w) simp
  next
    case False
    with snoc.prems(1) have i: "i < length ws" by simp
    have later: "\<forall>j. i < j \<and> j < length ws \<longrightarrow> fst (ws ! j) \<noteq> fst (ws ! i)"
    proof (intro allI impI)
      fix j assume j: "i < j \<and> j < length ws"
      with snoc.prems(2) have "fst ((ws @ [w]) ! j) \<noteq> fst ((ws @ [w]) ! i)" by simp
      with j i show "fst (ws ! j) \<noteq> fst (ws ! i)" by (simp add: nth_append)
    qed
    from snoc.prems(2) i have "fst w \<noteq> fst (ws ! i)"
      by (metis length_append_singleton lessI nth_append nth_append_length)
    with snoc.IH [OF i later] i show ?thesis
      by (cases w) (auto simp: nth_append)
  qed
qed

lemma snd_cumulative_walk:
  "map snd (cumulative_walk cnts 0 0 ks) = map (\<lambda>i. sum_list (take (Suc i) cnts)) [0..<length ks]"
proof (rule nth_equalityI)
  show "length (map snd (cumulative_walk cnts 0 0 ks)) =
        length (map (\<lambda>i. sum_list (take (Suc i) cnts)) [0..<length ks])"
    using arg_cong [OF map_fst_cumulative_walk [of cnts 0 0 ks], of length] by simp
next
  fix i assume "i < length (map snd (cumulative_walk cnts 0 0 ks))"
  then have i: "i < length ks"
    using arg_cong [OF map_fst_cumulative_walk [of cnts 0 0 ks], of length] by simp
  then have "i < length (cumulative_walk cnts 0 0 ks)"
    using arg_cong [OF map_fst_cumulative_walk [of cnts 0 0 ks], of length] by simp
  with i show "map snd (cumulative_walk cnts 0 0 ks) ! i =
      map (\<lambda>i. sum_list (take (Suc i) cnts)) [0..<length ks] ! i"
    by (simp add: cumulative_walk_nth)
qed

lemma length_cumulative_walk: "length (cumulative_walk cnts i tot bs) = length bs"
  using arg_cong [OF map_fst_cumulative_walk [of cnts i tot bs], of length] by simp

lemma walk_lookup:
  assumes nan: "NaN \<notin> set ks" and i: "i < length ks"
    and later: "\<forall>j. i < j \<and> j < length ks \<longrightarrow> ks ! j \<noteq> ks ! i"
  shows "bucket_get (foldl (\<lambda>m (b, v). bucket_put b v m) [] (cumulative_walk cnts 0 0 ks)) (ks ! i)
         = Some (sum_list (take (Suc i) cnts))"
proof -
  let ?ws = "cumulative_walk cnts 0 0 ks"
  have len: "length ?ws = length ks" by (rule length_cumulative_walk)
  have nth: "\<And>j. j < length ks \<Longrightarrow> ?ws ! j = (ks ! j, sum_list (take (Suc j) cnts))"
    by (simp add: cumulative_walk_nth)
  have keys: "NaN \<notin> fst ` set ?ws"
    using nan by (simp add: map_fst_cumulative_walk flip: set_map)
  have ki: "ks ! i \<noteq> NaN" using nan i by (metis nth_mem)
  have "map_of (rev ?ws) (fst (?ws ! i)) = Some (snd (?ws ! i))"
  proof (rule map_of_rev_last_occurrence)
    show "i < length ?ws" using i len by simp
    show "\<forall>j. i < j \<and> j < length ?ws \<longrightarrow> fst (?ws ! j) \<noteq> fst (?ws ! i)"
      using later i len by (simp add: nth)
  qed
  then have "map_of (rev ?ws) (ks ! i) = Some (sum_list (take (Suc i) cnts))"
    using i by (simp add: nth)
  then show ?thesis
    using ki by (simp add: bucket_get_map_of map_of_foldl_put [OF keys])
qed

text \<open>
  Claim C3, as amended. When \<open>generateHistogramBuckets\<close> has built the boundaries \<open>ks\<close> of a
  distribution and none of them is NaN, the map it returns is the one that the walk of the
  specification assigns, boundary by boundary in the order of the indices: with a source
  count at index \<open>i\<close> the count plus the running total, and the running total unchanged
  without one, so that the value assigned at index \<open>i\<close> is the sum of the source counts up
  to index \<open>i\<close>, computed on 64 bits. The map holds that value for the boundary at index
  \<open>i\<close> when no later boundary is equal to it. The final boundary, plus infinity, holds
  the sum of the source counts below the number of boundaries; this is the sum of all
  source counts when there are no more source counts than boundaries.
\<close>

theorem generateHistogramBuckets_cumulative:
  assumes keys: "bucketKeys ops (Some d) = Inr ks" and nan: "NaN \<notin> set ks"
  shows "\<exists>m. generateHistogramBuckets ops (Some d) = Inr m
     \<and> m = foldl (\<lambda>m (b, v). bucket_put b v m) [] (cumulative_walk (BucketCounts d) 0 0 ks)
     \<and> map snd (cumulative_walk (BucketCounts d) 0 0 ks)
         = map (\<lambda>i. sum_list (take (Suc i) (BucketCounts d))) [0..<length ks]
     \<and> (\<forall>i<length ks. (\<forall>j. i < j \<and> j < length ks \<longrightarrow> ks ! j \<noteq> ks ! i) \<longrightarrow>
            bucket_get m (ks ! i) = Some (sum_list (take (Suc i) (BucketCounts d))))
     \<and> bucket_get m PosInf = Some (sum_list (take (length ks) (BucketCounts d)))
     \<and> (length (BucketCounts d) \<le> length ks \<longrightarrow>
            bucket_get m PosInf = Some (sum_list (BucketCounts d)))"
proof -
  let ?cnts = "BucketCounts d"
  let ?m = "foldl (\<lambda>m (b, v). bucket_put b v m) [] (cumulative_walk ?cnts 0 0 ks)"
  have gen: "generateHistogramBuckets ops (Some d) = Inr ?m"
    using keys nan by (simp add: generateHistogramBuckets_def count_buckets_walk)
  have each: "\<forall>i<length ks. (\<forall>j. i < j \<and> j < length ks \<longrightarrow> ks ! j \<noteq> ks ! i) \<longrightarrow>
            bucket_get ?m (ks ! i) = Some (sum_list (take (Suc i) ?cnts))"
    using walk_lookup [OF nan] by blast
  from bucketKeys_last [OF keys] have ne: "ks \<noteq> []" and lst: "last ks = PosInf" by simp_all
  have "bucket_get ?m (ks ! (length ks - 1)) = Some (sum_list (take (Suc (length ks - 1)) ?cnts))"
  proof (rule walk_lookup [OF nan])
    show "length ks - 1 < length ks" using ne by simp
    show "\<forall>j. length ks - 1 < j \<and> j < length ks \<longrightarrow> ks ! j \<noteq> ks ! (length ks - 1)"
      by (intro allI impI) linarith
  qed
  then have inf: "bucket_get ?m PosInf = Some (sum_list (take (length ks) ?cnts))"
    using ne lst by (simp add: last_conv_nth)
  show ?thesis
    using gen each inf by (simp add: snd_cumulative_walk)
qed

text \<open>
  The theorem at the distribution with explicit bounds 1 and 2 and the source counts 3, 4
  and 5: the map is 3, 7 and 12 at the boundaries 1, 2 and plus infinity.
\<close>

theorem generateHistogramBuckets_cumulative_witness:
  "bucketKeys exact_ops (Some (distribution_of [3, 4, 5] (explicit_options [Fin 1, Fin 2])))
     = Inr [Fin 1, Fin 2, PosInf]
   \<and> NaN \<notin> set [Fin 1, Fin 2, PosInf]
   \<and> generateHistogramBuckets exact_ops
        (Some (distribution_of [3, 4, 5] (explicit_options [Fin 1, Fin 2])))
     = Inr [(Fin 1, 3), (Fin 2, 7), (PosInf, 12)]"
proof -
  have k: "bucketKeys exact_ops (Some (distribution_of [3, 4, 5] (explicit_options [Fin 1, Fin 2])))
     = Inr [Fin 1, Fin 2, PosInf]"
    by (simp add: bucketKeys_def distribution_of_def explicit_options_def variant_keys_def
        make_float64_def copy_slice_def slice_set_def)
  have n: "NaN \<notin> set [Fin 1, Fin 2, PosInf]" by simp
  from generateHistogramBuckets_cumulative [OF k n] k n show ?thesis
    by (simp add: distribution_of_def feq_def)
qed

text \<open>
  Claim C3 as it is stated fails on three inputs. With the explicit bound 1 and the source
  counts 1, 1 and 1 there are two boundaries, and plus infinity receives 2 where the sum of
  all source counts is 3. With the explicit bounds 1 and 1 the map is left with one value
  for the boundary 1, that of index 1. With the explicit bound NaN the variable
  \<^verbatim>\<open>last\<close> is read back from the map as 0, and plus infinity receives 2 where the
  sum of the source counts 1 and 2 is 3.
\<close>

theorem generateHistogramBuckets_cumulative_counterexample:
  "generateHistogramBuckets exact_ops (Some (distribution_of [1, 1, 1] (explicit_options [Fin 1])))
     = Inr [(Fin 1, 1), (PosInf, 2)]
   \<and> sum_list [1, 1, 1 :: 64 word] = 3
   \<and> generateHistogramBuckets exact_ops
        (Some (distribution_of [1, 2, 3] (explicit_options [Fin 1, Fin 1])))
     = Inr [(Fin 1, 3), (PosInf, 6)]
   \<and> generateHistogramBuckets exact_ops (Some (distribution_of [1, 2] (explicit_options [NaN])))
     = Inr [(NaN, 1), (PosInf, 2)]"
  by (simp add: generateHistogramBuckets_def bucketKeys_def distribution_of_def
      explicit_options_def variant_keys_def make_float64_def copy_slice_def slice_set_def
      bucket_index_def feq_def)






subsection \<open>The labels of a series\<close>

lemma keyExists_iff: "keyExists labelKeys key \<longleftrightarrow> key \<in> set labelKeys"
  by (induction labelKeys) auto

lemma first_occurrences_snoc:
  "rev (remdups (rev (xs @ [x]))) =
     (if x \<in> set xs then rev (remdups (rev xs)) else rev (remdups (rev xs)) @ [x])"
  by simp

lemma add_labels_keys:
  "fst (add_labels kvs (rev (remdups (rev xs)), vs)) = rev (remdups (rev (xs @ map fst kvs)))"
proof (induction kvs arbitrary: xs vs)
  case Nil
  show ?case by simp
next
  case (Cons kv kvs)
  obtain k v where kv: "kv = (k, v)" by (cases kv)
  show ?case
  proof (cases "k \<in> set xs")
    case True
    with Cons.IH [of xs vs] Cons.IH [of "xs @ [k]" vs] kv show ?thesis
      by (simp add: keyExists_iff)
  next
    case False
    with Cons.IH [of "xs @ [k]" "vs @ [v]"] kv show ?thesis
      by (simp add: keyExists_iff)
  qed
qed

lemma add_labels_prefix:
  "\<exists>ks' vs'. add_labels kvs (ks, vs) = (ks @ ks', vs @ vs')"
proof (induction kvs arbitrary: ks vs)
  case Nil
  show ?case by simp
next
  case (Cons kv kvs)
  obtain k v where kv: "kv = (k, v)" by (cases kv)
  from Cons.IH [of ks vs] Cons.IH [of "ks @ [k]" "vs @ [v]"] kv show ?case
    by (cases "keyExists ks k") auto
qed

lemma map_of_zip_SomeD:
  "map_of (zip ks vs) x = Some y \<Longrightarrow> x \<in> set ks"
  by (meson in_set_zipE map_of_SomeD)

lemma add_labels_values:
  "length ks = length vs \<Longrightarrow> add_labels kvs (ks, vs) = (ks', vs') \<Longrightarrow>
   length ks' = length vs' \<and> map_of (zip ks' vs') = map_of kvs ++ map_of (zip ks vs)"
proof (induction kvs arbitrary: ks vs)
  case Nil
  then show ?case by simp
next
  case (Cons kv kvs)
  obtain k v where kv: "kv = (k, v)" by (cases kv)
  show ?case
  proof (cases "k \<in> set ks")
    case True
    with Cons.prems kv have "add_labels kvs (ks, vs) = (ks', vs')"
      by (simp add: keyExists_iff)
    from Cons.IH [OF Cons.prems(1) this]
    have len: "length ks' = length vs'"
      and m: "map_of (zip ks' vs') = map_of kvs ++ map_of (zip ks vs)" by simp_all
    from True Cons.prems(1) obtain w where "map_of (zip ks vs) k = Some w"
      by (metis map_of_zip_is_Some not_Some_eq)
    then have eq: "map_of (kv # kvs) ++ map_of (zip ks vs) = map_of kvs ++ map_of (zip ks vs)"
      using kv by (auto simp: map_add_def fun_eq_iff split: option.splits)
    from len m show ?thesis unfolding eq by blast
  next
    case False
    with Cons.prems kv have "add_labels kvs (ks @ [k], vs @ [v]) = (ks', vs')"
      by (simp add: keyExists_iff)
    moreover have "length (ks @ [k]) = length (vs @ [v])" using Cons.prems(1) by simp
    ultimately have len: "length ks' = length vs'"
      and m: "map_of (zip ks' vs') = map_of kvs ++ map_of (zip (ks @ [k]) (vs @ [v]))"
      using Cons.IH [of "ks @ [k]" "vs @ [v]"] by simp_all
    from False Cons.prems(1) have none: "map_of (zip ks vs) k = None"
      by (metis map_of_zip_is_None)
    have eq: "map_of (kv # kvs) ++ map_of (zip ks vs) =
        map_of kvs ++ map_of (zip (ks @ [k]) (vs @ [v]))"
      using kv False Cons.prems(1)
      by (auto simp: map_add_def fun_eq_iff map_of_append split: option.splits
          dest: map_of_zip_SomeD)
    from len m show ?thesis unfolding eq by blast
  qed
qed

lemma assemble_labels_Inr:
  assumes "ts_Metric timeSeries = Some metric" "ts_Resource timeSeries = Some resource"
  shows "assemble_labels ext metricDescriptor timeSeries =
     Inr (add_labels (system_labels ext timeSeries)
           (add_labels (resource_Labels resource)
             (add_labels (metric_Labels metric) ([''unit''], [md_Unit metricDescriptor]))))"
  using assms by (simp add: assemble_labels_def)

lemma series_body_labels:
  assumes "series_body ext c metricDescriptor timeSeries np0 = Inr (np, Some sample)"
  shows "\<exists>labelKeys labelValues.
           assemble_labels ext metricDescriptor timeSeries = Inr (labelKeys, labelValues)
         \<and> ((\<exists>ts t vt v kind. sample = ConstMetric ts t labelKeys vt v labelValues kind)
            \<or> (\<exists>ts t d b kind. sample = ConstHistogram ts t labelKeys d b labelValues kind))"
  using assms
  by (auto simp: series_body_def valueTypeSwitch_def
      split: sum.splits prod.splits if_splits option.splits error.splits)

text \<open>
  Claim C6. For a series whose metric and resource are not nil the labels are assembled, and
  the list of label keys is \<open>unit\<close> followed by the keys of the metric labels, of the
  resource labels and of the system labels that were decoded, in that order and each key
  at its first occurrence only. The key \<open>unit\<close> is the first one, no key occurs twice,
  there is one value for each key, and the value of a key is the one it has where it is
  seen first: the unit of the descriptor for \<open>unit\<close>, then the metric labels, then the
  resource labels, then the system labels. These keys and values are the ones of the sample
  that is handed over for the series.
\<close>

theorem assemble_labels_order:
  assumes metric: "ts_Metric timeSeries = Some metric"
    and resource: "ts_Resource timeSeries = Some resource"
  shows "\<exists>labelKeys labelValues.
       assemble_labels ext metricDescriptor timeSeries = Inr (labelKeys, labelValues)
     \<and> labelKeys = rev (remdups (rev (''unit'' # map fst
          (metric_Labels metric @ resource_Labels resource @ system_labels ext timeSeries))))
     \<and> hd labelKeys = ''unit''
     \<and> distinct labelKeys
     \<and> length labelValues = length labelKeys
     \<and> map_of (zip labelKeys labelValues) =
         map_of ((''unit'', md_Unit metricDescriptor) #
           metric_Labels metric @ resource_Labels resource @ system_labels ext timeSeries)
     \<and> (\<forall>c np0 np ts t ks vt v vs kind.
          series_body ext c metricDescriptor timeSeries np0
            = Inr (np, Some (ConstMetric ts t ks vt v vs kind)) \<longrightarrow>
          ks = labelKeys \<and> vs = labelValues)
     \<and> (\<forall>c np0 np ts t ks d b vs kind.
          series_body ext c metricDescriptor timeSeries np0
            = Inr (np, Some (ConstHistogram ts t ks d b vs kind)) \<longrightarrow>
          ks = labelKeys \<and> vs = labelValues)"
proof -
  let ?M = "metric_Labels metric" and ?R = "resource_Labels resource"
    and ?S = "system_labels ext timeSeries" and ?u = "md_Unit metricDescriptor"
  obtain k1 v1 where a1: "add_labels ?M ([''unit''], [?u]) = (k1, v1)" by force
  obtain k2 v2 where a2: "add_labels ?R (k1, v1) = (k2, v2)" by force
  obtain k3 v3 where a3: "add_labels ?S (k2, v2) = (k3, v3)" by force
  have res: "assemble_labels ext metricDescriptor timeSeries = Inr (k3, v3)"
    using assemble_labels_Inr [OF metric resource] a1 a2 a3 by simp
  have f1: "k1 = rev (remdups (rev ([''unit''] @ map fst ?M)))"
    using add_labels_keys [of ?M "[''unit'']" "[?u]"] a1 by simp
  have f2: "k2 = rev (remdups (rev (([''unit''] @ map fst ?M) @ map fst ?R)))"
    using add_labels_keys [of ?R "[''unit''] @ map fst ?M" v1] a2 f1 by simp
  have f3: "k3 = rev (remdups (rev ((([''unit''] @ map fst ?M) @ map fst ?R) @ map fst ?S)))"
    using add_labels_keys [of ?S "([''unit''] @ map fst ?M) @ map fst ?R" v2] a3 f2 by simp
  have keys: "k3 = rev (remdups (rev (''unit'' # map fst (?M @ ?R @ ?S))))"
    using f3 by simp
  from add_labels_values [OF _ a1]
  have l1: "length k1 = length v1"
    and m1: "map_of (zip k1 v1) = map_of ?M ++ map_of [(''unit'', ?u)]" by simp_all
  from add_labels_values [OF l1 a2]
  have l2: "length k2 = length v2"
    and m2: "map_of (zip k2 v2) = map_of ?R ++ map_of (zip k1 v1)" by simp_all
  from add_labels_values [OF l2 a3]
  have l3: "length k3 = length v3"
    and m3: "map_of (zip k3 v3) = map_of ?S ++ map_of (zip k2 v2)" by simp_all
  have vals: "map_of (zip k3 v3) = map_of ((''unit'', ?u) # ?M @ ?R @ ?S)"
    unfolding m3 m2 m1 by (simp add: map_of_append flip: map_add_assoc)
  obtain ka va where p1: "k1 = [''unit''] @ ka"
    using add_labels_prefix [of ?M "[''unit'']" "[?u]"] a1 by auto
  obtain kb vb where p2: "k2 = k1 @ kb"
    using add_labels_prefix [of ?R k1 v1] a2 by auto
  obtain kc vc where p3: "k3 = k2 @ kc"
    using add_labels_prefix [of ?S k2 v2] a3 by auto
  have hd: "hd k3 = ''unit''" using p1 p2 p3 by simp
  have dist: "distinct k3" unfolding keys by (simp only: distinct_rev distinct_remdups)
  have met: "\<forall>c np0 np ts t ks vt v vs kind.
          series_body ext c metricDescriptor timeSeries np0
            = Inr (np, Some (ConstMetric ts t ks vt v vs kind)) \<longrightarrow>
          ks = k3 \<and> vs = v3"
    using res by (auto dest!: series_body_labels)
  have his: "\<forall>c np0 np ts t ks d b vs kind.
          series_body ext c metricDescriptor timeSeries np0
            = Inr (np, Some (ConstHistogram ts t ks d b vs kind)) \<longrightarrow>
          ks = k3 \<and> vs = v3"
    using res by (auto dest!: series_body_labels)
  show ?thesis
    using res keys hd dist l3 vals met his by (intro exI [of _ k3] exI [of _ v3]) simp
qed

text \<open>
  The theorem at a series with the metric labels \<open>zone\<close> and \<open>unit\<close>, the resource labels
  \<open>project_id\<close> and \<open>zone\<close> and the system labels \<open>zone\<close> and \<open>region\<close>.
\<close>

theorem assemble_labels_order_witness:
  "ts_Metric (example_series ''GAUGE'' []) =
     Some \<lparr> metric_Labels = [(''zone'', ''a''), (''unit'', ''x'')],
            metric_Type = ''custom.googleapis.com/m'' \<rparr>
   \<and> ts_Resource (example_series ''GAUGE'' []) =
     Some \<lparr> resource_Labels = [(''project_id'', ''p''), (''zone'', ''c'')],
            resource_Type = ''gce_instance'' \<rparr>
   \<and> (\<exists>labelValues.
        assemble_labels example_ext (example_descriptor ''custom.googleapis.com/m'' [])
          (example_series ''GAUGE'' [])
          = Inr ([''unit'', ''zone'', ''project_id'', ''region''], labelValues)
      \<and> map_of (zip [''unit'', ''zone'', ''project_id'', ''region''] labelValues) ''unit''
          = Some ''1''
      \<and> map_of (zip [''unit'', ''zone'', ''project_id'', ''region''] labelValues) ''zone''
          = Some ''a'')"
proof -
  have m: "ts_Metric (example_series ''GAUGE'' []) =
     Some \<lparr> metric_Labels = [(''zone'', ''a''), (''unit'', ''x'')],
            metric_Type = ''custom.googleapis.com/m'' \<rparr>"
    by (simp add: example_series_def)
  have r: "ts_Resource (example_series ''GAUGE'' []) =
     Some \<lparr> resource_Labels = [(''project_id'', ''p''), (''zone'', ''c'')],
            resource_Type = ''gce_instance'' \<rparr>"
    by (simp add: example_series_def)
  have s: "system_labels example_ext (example_series ''GAUGE'' [])
     = [(''zone'', ''b''), (''region'', ''r'')]"
    by (simp add: system_labels_def example_series_def example_ext_def
        example_jsonUnmarshal_def)
  from assemble_labels_order [OF m r, of example_ext
      "example_descriptor ''custom.googleapis.com/m'' []"] m r
  show ?thesis
    by (auto simp: s example_descriptor_def)
qed

subsection \<open>The kind of a series\<close>





subsection \<open>The newest point of a series\<close>

lemma newest_point_mono:
  "newest_point ext ps t0 np0 = Inr (t, np) \<Longrightarrow> t0 \<le> t \<and> (t = t0 \<longrightarrow> np = np0)"
proof (induction ps arbitrary: t0 np0)
  case Nil
  then show ?case by simp
next
  case (Cons p ps)
  from Cons.prems obtain e where e: "point_end ext p = Inr e"
    by (auto split: sum.splits)
  show ?case
  proof (cases "e > t0")
    case True
    with Cons.prems e have "newest_point ext ps e (Some p) = Inr (t, np)" by simp
    from Cons.IH [OF this] True show ?thesis by simp
  next
    case False
    with Cons.prems e have "newest_point ext ps t0 np0 = Inr (t, np)" by simp
    from Cons.IH [OF this] show ?thesis .
  qed
qed

lemma newest_point_upper:
  "newest_point ext ps t0 np0 = Inr (t, np) \<Longrightarrow>
   \<forall>q\<in>set ps. \<exists>e. point_end ext q = Inr e \<and> e \<le> t"
proof (induction ps arbitrary: t0 np0)
  case Nil
  then show ?case by simp
next
  case (Cons p ps)
  from Cons.prems obtain e where e: "point_end ext p = Inr e"
    by (auto split: sum.splits)
  show ?case
  proof (cases "e > t0")
    case True
    with Cons.prems e have r: "newest_point ext ps e (Some p) = Inr (t, np)" by simp
    from Cons.IH [OF r] newest_point_mono [OF r] e show ?thesis by simp
  next
    case False
    with Cons.prems e have r: "newest_point ext ps t0 np0 = Inr (t, np)" by simp
    from Cons.IH [OF r] newest_point_mono [OF r] e False show ?thesis by simp
  qed
qed

lemma newest_point_first:
  "newest_point ext ps t0 np0 = Inr (t, np) \<Longrightarrow> t0 < t \<Longrightarrow>
   find (\<lambda>q. point_end ext q = Inr t) ps = np"
proof (induction ps arbitrary: t0 np0)
  case Nil
  then show ?case by simp
next
  case (Cons p ps)
  from Cons.prems obtain e where e: "point_end ext p = Inr e"
    by (auto split: sum.splits)
  show ?case
  proof (cases "e > t0")
    case True
    with Cons.prems e have r: "newest_point ext ps e (Some p) = Inr (t, np)" by simp
    show ?thesis
    proof (cases "t = e")
      case True
      with newest_point_mono [OF r] e show ?thesis by simp
    next
      case False
      with newest_point_mono [OF r] have "e < t" by simp
      from Cons.IH [OF r this] e False show ?thesis by simp
    qed
  next
    case False
    with Cons.prems e have r: "newest_point ext ps t0 np0 = Inr (t, np)" by simp
    from Cons.IH [OF r Cons.prems(2)] e False Cons.prems(2) show ?thesis by simp
  qed
qed

lemma newest_point_total:
  "\<forall>q\<in>set ps. \<exists>e. point_end ext q = Inr e \<Longrightarrow>
   \<exists>t np. newest_point ext ps t0 np0 = Inr (t, np)"
proof (induction ps arbitrary: t0 np0)
  case Nil
  show ?case by simp
next
  case (Cons p ps)
  from Cons.prems obtain e where e: "point_end ext p = Inr e" by auto
  from Cons.prems have rest: "\<forall>q\<in>set ps. \<exists>e. point_end ext q = Inr e" by simp
  from Cons.IH [OF rest, of e "Some p"] Cons.IH [OF rest, of t0 np0] e show ?case
    by (cases "e > t0") simp_all
qed

lemma newest_point_attained:
  "newest_point ext ps t0 np0 = Inr (t, np) \<Longrightarrow> t0 < t \<Longrightarrow>
   \<exists>p\<in>set ps. np = Some p \<and> point_end ext p = Inr t"
proof (induction ps arbitrary: t0 np0)
  case Nil
  then show ?case by simp
next
  case (Cons p ps)
  from Cons.prems obtain e where e: "point_end ext p = Inr e"
    by (auto split: sum.splits)
  show ?case
  proof (cases "e > t0")
    case True
    with Cons.prems e have r: "newest_point ext ps e (Some p) = Inr (t, np)" by simp
    show ?thesis
    proof (cases "t = e")
      case True
      with newest_point_mono [OF r] e show ?thesis by simp
    next
      case False
      with newest_point_mono [OF r] have "e < t" by simp
      from Cons.IH [OF r this] show ?thesis by auto
    qed
  next
    case False
    with Cons.prems e have r: "newest_point ext ps t0 np0 = Inr (t, np)" by simp
    from Cons.IH [OF r Cons.prems(2)] show ?thesis by auto
  qed
qed

lemma newest_point_latest:
  assumes all: "\<forall>q\<in>set ps. \<exists>e. point_end ext q = Inr e"
    and some: "\<exists>q\<in>set ps. \<exists>e. point_end ext q = Inr e \<and> t0 < e"
  shows "\<exists>t p. newest_point ext ps t0 np0 = Inr (t, Some p)
     \<and> t0 < t \<and> p \<in> set ps \<and> point_end ext p = Inr t
     \<and> (\<forall>q\<in>set ps. \<exists>e. point_end ext q = Inr e \<and> e \<le> t)
     \<and> find (\<lambda>q. point_end ext q = Inr t) ps = Some p"
proof -
  from newest_point_total [OF all] obtain t np
    where r: "newest_point ext ps t0 np0 = Inr (t, np)" by blast
  note upper = newest_point_upper [OF r]
  from some upper have lt: "t0 < t" by fastforce
  from newest_point_attained [OF r lt] obtain p
    where p: "p \<in> set ps" "np = Some p" "point_end ext p = Inr t" by blast
  from newest_point_first [OF r lt] p
  have f: "find (\<lambda>q. point_end ext q = Inr t) ps = Some p" by simp
  from r lt p upper f show ?thesis by blast
qed

lemma newest_point_any_order:
  assumes all: "\<forall>q\<in>set ps. \<exists>e. point_end ext q = Inr e"
    and p: "p \<in> set ps" "point_end ext p = Inr t" "0 < t"
    and upper: "\<forall>q\<in>set ps. \<exists>e. point_end ext q = Inr e \<and> e \<le> t"
    and only: "\<forall>q\<in>set ps. point_end ext q = Inr t \<longrightarrow> q = p"
    and same: "set ps' = set ps"
  shows "newest_point ext ps' 0 np0 = Inr (t, Some p)"
proof -
  from all same have all': "\<forall>q\<in>set ps'. \<exists>e. point_end ext q = Inr e" by simp
  from p same have some': "\<exists>q\<in>set ps'. \<exists>e. point_end ext q = Inr e \<and> 0 < e" by blast
  from newest_point_latest [OF all' some', of np0] obtain t' p'
    where r: "newest_point ext ps' 0 np0 = Inr (t', Some p')"
      and p': "p' \<in> set ps'" "point_end ext p' = Inr t'"
      and upper': "\<forall>q\<in>set ps'. \<exists>e. point_end ext q = Inr e \<and> e \<le> t'"
    by blast
  from upper' p same have "t \<le> t'" by fastforce
  moreover from upper p' same have "t' \<le> t" by fastforce
  ultimately have "t' = t" by simp
  with only p' same have "p' = p" by simp
  with r \<open>t' = t\<close> show ?thesis by simp
qed

lemma series_body_scalar:
  assumes "series_body ext c metricDescriptor timeSeries np0
             = Inr (np, Some (ConstMetric ts t ks vt v vs kind))"
  shows "newest_point ext (Points timeSeries) 0 np0 = Inr (t, np)
     \<and> scalar_value ext (ValueType timeSeries) np = Inr v \<and> ts = timeSeries"
  using assms
  by (auto simp: series_body_def valueTypeSwitch_def
      split: sum.splits prod.splits if_splits option.splits error.splits)

lemma series_body_histogram:
  assumes "series_body ext c metricDescriptor timeSeries np0
             = Inr (np, Some (ConstHistogram ts t ks d b vs kind))"
  shows "newest_point ext (Points timeSeries) 0 np0 = Inr (t, np)
     \<and> (\<exists>v. point_value np = Inr v \<and> DistributionValue v = Some d)
     \<and> generateHistogramBuckets (floats ext) (Some d) = Inr b \<and> ts = timeSeries"
  using assms
  by (auto simp: series_body_def valueTypeSwitch_def
      split: sum.splits prod.splits if_splits option.splits error.splits)

text \<open>
  Claim C5, as amended. For a series all of whose points have an interval end that parses
  and at least one of whose points ends after the Unix epoch, the loop over the points
  selects a point with the latest interval end, the first such point in the list, whatever
  \<^verbatim>\<open>newestTSPoint\<close> held before. The selection does not depend on the order of the points:
  when only one point has the latest end, every list with the same points selects it. The
  sample handed over for the series carries that end as its time, and its value is decoded
  from the selected point.
\<close>

theorem newest_point_exposed:
  assumes all: "\<forall>q\<in>set (Points timeSeries). \<exists>e. point_end ext q = Inr e"
    and some: "\<exists>q\<in>set (Points timeSeries). \<exists>e. point_end ext q = Inr e \<and> 0 < e"
  shows "\<exists>t p. newest_point ext (Points timeSeries) 0 np0 = Inr (t, Some p)
     \<and> p \<in> set (Points timeSeries) \<and> point_end ext p = Inr t
     \<and> (\<forall>q\<in>set (Points timeSeries). \<exists>e. point_end ext q = Inr e \<and> e \<le> t)
     \<and> find (\<lambda>q. point_end ext q = Inr t) (Points timeSeries) = Some p
     \<and> (\<forall>ps' np0'. set ps' = set (Points timeSeries)
            \<and> (\<forall>q\<in>set (Points timeSeries). point_end ext q = Inr t \<longrightarrow> q = p) \<longrightarrow>
            newest_point ext ps' 0 np0' = Inr (t, Some p))
     \<and> (\<forall>c metricDescriptor np ts t' ks vt v vs kind.
            series_body ext c metricDescriptor timeSeries np0
              = Inr (np, Some (ConstMetric ts t' ks vt v vs kind)) \<longrightarrow>
            t' = t \<and> np = Some p \<and> scalar_value ext (ValueType timeSeries) (Some p) = Inr v)
     \<and> (\<forall>c metricDescriptor np ts t' ks d b vs kind.
            series_body ext c metricDescriptor timeSeries np0
              = Inr (np, Some (ConstHistogram ts t' ks d b vs kind)) \<longrightarrow>
            t' = t \<and> np = Some p \<and> (\<exists>v. Value p = Some v \<and> DistributionValue v = Some d))"
proof -
  from newest_point_latest [OF all some, of np0] obtain t p
    where r: "newest_point ext (Points timeSeries) 0 np0 = Inr (t, Some p)"
      and lt: "0 < t"
      and p: "p \<in> set (Points timeSeries)" "point_end ext p = Inr t"
      and upper: "\<forall>q\<in>set (Points timeSeries). \<exists>e. point_end ext q = Inr e \<and> e \<le> t"
      and f: "find (\<lambda>q. point_end ext q = Inr t) (Points timeSeries) = Some p"
    by blast
  have order: "\<forall>ps' np0'. set ps' = set (Points timeSeries)
            \<and> (\<forall>q\<in>set (Points timeSeries). point_end ext q = Inr t \<longrightarrow> q = p) \<longrightarrow>
            newest_point ext ps' 0 np0' = Inr (t, Some p)"
    using newest_point_any_order [OF all p lt upper] by blast
  have scalar: "\<forall>c metricDescriptor np ts t' ks vt v vs kind.
            series_body ext c metricDescriptor timeSeries np0
              = Inr (np, Some (ConstMetric ts t' ks vt v vs kind)) \<longrightarrow>
            t' = t \<and> np = Some p \<and> scalar_value ext (ValueType timeSeries) (Some p) = Inr v"
  proof (intro allI impI)
    fix c metricDescriptor np ts t' ks vt v vs kind
    assume "series_body ext c metricDescriptor timeSeries np0
              = Inr (np, Some (ConstMetric ts t' ks vt v vs kind))"
    from series_body_scalar [OF this] r
    show "t' = t \<and> np = Some p \<and> scalar_value ext (ValueType timeSeries) (Some p) = Inr v"
      by simp
  qed
  have histogram: "\<forall>c metricDescriptor np ts t' ks d b vs kind.
            series_body ext c metricDescriptor timeSeries np0
              = Inr (np, Some (ConstHistogram ts t' ks d b vs kind)) \<longrightarrow>
            t' = t \<and> np = Some p \<and> (\<exists>v. Value p = Some v \<and> DistributionValue v = Some d)"
  proof (intro allI impI)
    fix c metricDescriptor np ts t' ks d b vs kind
    assume "series_body ext c metricDescriptor timeSeries np0
              = Inr (np, Some (ConstHistogram ts t' ks d b vs kind))"
    from series_body_histogram [OF this] r
    show "t' = t \<and> np = Some p \<and> (\<exists>v. Value p = Some v \<and> DistributionValue v = Some d)"
      by (auto simp: point_value_def split: option.splits)
  qed
  from r p upper f order scalar histogram show ?thesis by blast
qed

lemmas example_simps =
  example_series_def int64_point_def example_descriptor_def example_collector_def
  example_ext_def example_parseTime_def example_jsonUnmarshal_def exact_ops_def

lemmas report_simps =
  reportTimeSeriesMetrics_def series_body_def point_end_def assemble_labels_def
  system_labels_def metricKindSwitch_def valueTypeSwitch_def scalar_value_def
  point_value_def

text \<open>
  The theorem at a series with the ends 1 s, 3 s and 2 s after the epoch and the values 1, 3
  and 2: the value handed over is 3.
\<close>

theorem newest_point_exposed_witness:
  "point_end example_ext (int64_point ''1970-01-01T00:00:01Z'' 1) = Inr 1000000000
   \<and> point_end example_ext (int64_point ''1970-01-01T00:00:03Z'' 3) = Inr 3000000000
   \<and> point_end example_ext (int64_point ''1970-01-01T00:00:02Z'' 2) = Inr 2000000000
   \<and> find (\<lambda>q. point_end example_ext q = Inr 3000000000)
        (Points (example_series ''GAUGE''
          [int64_point ''1970-01-01T00:00:01Z'' 1, int64_point ''1970-01-01T00:00:03Z'' 3,
           int64_point ''1970-01-01T00:00:02Z'' 2]))
      = Some (int64_point ''1970-01-01T00:00:03Z'' 3)
   \<and> series_body example_ext example_collector
        (example_descriptor ''custom.googleapis.com/m'' [])
        (example_series ''GAUGE''
          [int64_point ''1970-01-01T00:00:01Z'' 1, int64_point ''1970-01-01T00:00:03Z'' 3,
           int64_point ''1970-01-01T00:00:02Z'' 2]) None
      = Inr (Some (int64_point ''1970-01-01T00:00:03Z'' 3),
             Some (ConstMetric
               (example_series ''GAUGE''
                 [int64_point ''1970-01-01T00:00:01Z'' 1, int64_point ''1970-01-01T00:00:03Z'' 3,
                  int64_point ''1970-01-01T00:00:02Z'' 2])
               3000000000 [''unit'', ''zone'', ''project_id'', ''region''] GaugeValue (Fin 3)
               [''1'', ''a'', ''p'', ''r''] ''GAUGE''))"
proof -
  let ?ps = "[int64_point ''1970-01-01T00:00:01Z'' 1, int64_point ''1970-01-01T00:00:03Z'' 3,
         int64_point ''1970-01-01T00:00:02Z'' 2]"
  let ?ts = "example_series ''GAUGE'' ?ps"
  have all: "\<forall>q\<in>set (Points ?ts). \<exists>e. point_end example_ext q = Inr e"
    by (simp add: example_simps point_end_def)
  have some: "\<exists>q\<in>set (Points ?ts). \<exists>e. point_end example_ext q = Inr e \<and> 0 < e"
    by (simp add: example_simps point_end_def)
  have n: "newest_point example_ext (Points ?ts) 0 None
      = Inr (3000000000, Some (int64_point ''1970-01-01T00:00:03Z'' 3))"
    by (simp add: example_simps point_end_def)
  from newest_point_exposed [OF all some, of None] n
  have f: "find (\<lambda>q. point_end example_ext q = Inr 3000000000) (Points ?ts)
      = Some (int64_point ''1970-01-01T00:00:03Z'' 3)"
    by auto
  have b: "series_body example_ext example_collector
        (example_descriptor ''custom.googleapis.com/m'' []) ?ts None
      = Inr (Some (int64_point ''1970-01-01T00:00:03Z'' 3),
             Some (ConstMetric ?ts 3000000000 [''unit'', ''zone'', ''project_id'', ''region'']
               GaugeValue (Fin 3) [''1'', ''a'', ''p'', ''r''] ''GAUGE''))"
    by (simp add: example_simps report_simps)
  have e: "point_end example_ext (int64_point ''1970-01-01T00:00:01Z'' 1) = Inr 1000000000
     \<and> point_end example_ext (int64_point ''1970-01-01T00:00:03Z'' 3) = Inr 3000000000
     \<and> point_end example_ext (int64_point ''1970-01-01T00:00:02Z'' 2) = Inr 2000000000"
    by (simp add: example_simps point_end_def)
  from e f b show ?thesis by blast
qed

text \<open>
  Claim C5 as it is stated fails for a series whose only point ends at the Unix epoch: no
  end is after the initial \<^verbatim>\<open>newestEndTime\<close>, so no point of the series is selected. After
  a series with the value 5, the value handed over for it is 5 and not its own value 7.
\<close>

theorem newest_point_exposed_counterexample:
  "point_end example_ext (int64_point ''1970-01-01T00:00:00Z'' 7) = Inr 0
   \<and> reportTimeSeriesMetrics example_ext example_collector
       \<lparr> resp_TimeSeries =
           [example_series ''GAUGE'' [int64_point ''1970-01-01T00:00:01Z'' 5],
            example_series ''GAUGE'' [int64_point ''1970-01-01T00:00:00Z'' 7]],
         resp_NextPageToken = [] \<rparr>
       (example_descriptor ''custom.googleapis.com/m'' [])
     = ([ConstMetric (example_series ''GAUGE'' [int64_point ''1970-01-01T00:00:01Z'' 5])
           1000000000 [''unit'', ''zone'', ''project_id'', ''region''] GaugeValue (Fin 5)
           [''1'', ''a'', ''p'', ''r''] ''GAUGE'',
         ConstMetric (example_series ''GAUGE'' [int64_point ''1970-01-01T00:00:00Z'' 7])
           0 [''unit'', ''zone'', ''project_id'', ''region''] GaugeValue (Fin 5)
           [''1'', ''a'', ''p'', ''r''] ''GAUGE''],
        None)"
  by (simp add: example_simps report_simps)

text \<open>
  Claim C1 says that a series without points is skipped. The code at a page with a series
  of value 5 followed by a series without points: the second series is not skipped, a sample
  is handed over for it with the value of the point of the first series and the Unix epoch
  as its time. At a page whose only series has no points, \<^verbatim>\<open>newestTSPoint\<close> is nil where its
  value is decoded, and the code panics.
\<close>

theorem reportTimeSeriesMetrics_empty_points:
  "reportTimeSeriesMetrics example_ext example_collector
       \<lparr> resp_TimeSeries =
           [example_series ''GAUGE'' [int64_point ''1970-01-01T00:00:01Z'' 5],
            example_series ''GAUGE'' []],
         resp_NextPageToken = [] \<rparr>
       (example_descriptor ''custom.googleapis.com/m'' [])
     = ([ConstMetric (example_series ''GAUGE'' [int64_point ''1970-01-01T00:00:01Z'' 5])
           1000000000 [''unit'', ''zone'', ''project_id'', ''region''] GaugeValue (Fin 5)
           [''1'', ''a'', ''p'', ''r''] ''GAUGE'',
         ConstMetric (example_series ''GAUGE'' [])
           0 [''unit'', ''zone'', ''project_id'', ''region''] GaugeValue (Fin 5)
           [''1'', ''a'', ''p'', ''r''] ''GAUGE''],
        None)
   \<and> reportTimeSeriesMetrics example_ext example_collector
       \<lparr> resp_TimeSeries = [example_series ''GAUGE'' []], resp_NextPageToken = [] \<rparr>
       (example_descriptor ''custom.googleapis.com/m'' [])
     = ([], Some Panic)"
  by (simp add: example_simps report_simps)

subsection \<open>The cache restricted to Google metrics\<close>




subsection \<open>The units of the descriptors\<close>

lemma those_map_Some:
  "those (map f xs) = Some ys \<Longrightarrow>
   length ys = length xs \<and> (\<forall>i<length xs. f (xs ! i) = Some (ys ! i))"
proof (induction xs arbitrary: ys)
  case Nil
  then show ?case by simp
next
  case (Cons x xs)
  from Cons.prems obtain y ys' where y: "f x = Some y" and ys': "those (map f xs) = Some ys'"
    and ys: "ys = y # ys'"
    by (auto split: option.splits)
  from Cons.IH [OF ys'] y ys show ?case
    by (auto simp: nth_Cons split: nat.splits)
qed




lemma extra_filters_appends: "\<exists>rest. extra_filters efs ty flt = flt @ rest"
proof (induction efs arbitrary: flt)
  case Nil
  show ?case by simp
next
  case (Cons ef efs)
  from Cons.IH [of flt] Cons.IH [of "flt @ '' AND ('' @ FilterQuery ef @ '')''"]
  show ?case by auto
qed

lemma sint_negate:
  fixes d :: "64 word"
  assumes "- (2 ^ 63) < sint d"
  shows "sint (negate d) = - sint d"
proof -
  have "sint d < 2 ^ 63" using sint_lt [of d] by simp
  have "sint (negate d) = signed_take_bit 63 (- sint d)"
    by (simp add: negate_def sint_word_minus)
  also have "\<dots> = - sint d"
    using assms \<open>sint d < 2 ^ 63\<close> by (intro signed_take_bit_int_eq_self) simp_all
  finally show ?thesis .
qed

lemma descriptor_unit_issued:
  assumes "descriptor_unit ext svc c d startTime endTime = Some u"
  shows "(\<forall>e. timeSeriesListCall ext c d startTime endTime = Inl e \<longrightarrow>
            issued u = None \<and> sent u = Some e)
       \<and> (\<forall>call. timeSeriesListCall ext c d startTime endTime = Inr call \<longrightarrow>
            issued u = Some call)"
  using assms by (auto simp: descriptor_unit_def split: sum.splits option.splits)

lemma timeSeriesListCall_Inr:
  assumes "timeSeriesListCall ext c d startTime endTime = Inr call"
  shows "unit_interval ext c d startTime endTime
           = Inr (call_IntervalStartTime call, call_IntervalEndTime call)
       \<and> (\<exists>rest. call_Filter call = base_filter c d @ rest)"
  using assms extra_filters_appends [of "metricsFilters c" "md_Type d" "base_filter c d"]
  by (auto simp: timeSeriesListCall_def split: sum.splits)


lemma metricDescriptorsFunction_units:
  assumes "metricDescriptorsFunction ext svc c now descriptors = Some (units, err)"
  shows "length units = length (uniqueDescriptors descriptors [])
     \<and> (\<forall>i<length units.
          descriptor_unit ext svc c (snd (uniqueDescriptors descriptors [] ! i))
            (time_Add (time_Add now (negate (metricsOffset c))) (negate (metricsInterval c)))
            (time_Add now (negate (metricsOffset c))) = Some (units ! i))
     \<and> err = first_error (map sent units)"
proof -
  let ?e = "time_Add now (negate (metricsOffset c))"
  let ?s = "time_Add ?e (negate (metricsInterval c))"
  let ?f = "\<lambda>(ty, metricDescriptor). descriptor_unit ext svc c metricDescriptor ?s ?e"
  from assms have t: "those (map ?f (uniqueDescriptors descriptors [])) = Some units"
    and e: "err = first_error (map sent units)"
    by (auto simp: metricDescriptorsFunction_def Let_def split: option.splits)
  from those_map_Some [OF t] e show ?thesis
    by (auto simp: case_prod_beta)
qed


lemmas orchestrator_simps =
  metricDescriptorsFunction_def descriptor_unit_def timeSeriesListCall_def unit_interval_def
  base_filter_def time_Add_def negate_def example_parseDuration_def
  reportTimeSeriesMetrics_def

lemma example_timeSeries_pages: "timeSeries_pages ext example_service c d call [] [] = Some ([], None)"
  by (subst timeSeries_pages.simps) (simp add: example_service_def)








subsection \<open>The interval of a unit\<close>

lemma unit_interval_cases:
  assumes "unit_interval ext c d startTime endTime = Inr (s, e)"
  shows "if metricsIngestDelay c \<and> (\<exists>meta. md_Metadata d = Some meta \<and> IngestDelay meta \<noteq> [])
         then \<exists>meta delay. md_Metadata d = Some meta
                \<and> parseDuration ext (IngestDelay meta) = Some delay
                \<and> s = time_Add startTime (negate delay) \<and> e = time_Add endTime (negate delay)
         else s = startTime \<and> e = endTime"
  using assms by (auto simp: unit_interval_def split: option.splits if_splits)

text \<open>
  Claim C10. In one call of \<^verbatim>\<open>metricDescriptorsFunction\<close>, with \<open>now\<close> the reading of the
  clock in it, the interval of the request of a unit is fixed by the collector, \<open>now\<close> and
  the descriptor of that unit alone. A unit whose descriptor declares no ingest delay, or
  any unit when the collector does not use ingest delays, asks for the interval from
  \<open>end - interval\<close> to \<open>end = now - offset\<close>; a unit whose descriptor declares one asks
  for that interval moved back by its own delay. So the interval of a descriptor is the same
  whatever other descriptors are handed over with it and whatever their ingest delays are.
  (\<^verbatim>\<open>d * -1\<close> is \<open>- d\<close> for every duration but the least one, where it wraps.)
\<close>

theorem unit_interval_own:
  assumes run: "metricDescriptorsFunction ext svc c now descriptors = Some (units, err)"
    and i: "i < length units"
    and call: "issued (units ! i) = Some call"
  shows "(if metricsIngestDelay c
            \<and> (\<exists>meta. md_Metadata (snd (uniqueDescriptors descriptors [] ! i)) = Some meta
                  \<and> IngestDelay meta \<noteq> [])
          then \<exists>meta delay.
                 md_Metadata (snd (uniqueDescriptors descriptors [] ! i)) = Some meta
               \<and> parseDuration ext (IngestDelay meta) = Some delay
               \<and> call_IntervalStartTime call =
                   time_Add (time_Add (time_Add now (negate (metricsOffset c)))
                               (negate (metricsInterval c))) (negate delay)
               \<and> call_IntervalEndTime call =
                   time_Add (time_Add now (negate (metricsOffset c))) (negate delay)
          else call_IntervalStartTime call =
                   time_Add (time_Add now (negate (metricsOffset c))) (negate (metricsInterval c))
               \<and> call_IntervalEndTime call = time_Add now (negate (metricsOffset c)))
     \<and> (- (2 ^ 63) < sint (metricsOffset c) \<longrightarrow>
           time_Add now (negate (metricsOffset c)) = now - sint (metricsOffset c))
     \<and> (- (2 ^ 63) < sint (metricsInterval c) \<longrightarrow>
           time_Add (time_Add now (negate (metricsOffset c))) (negate (metricsInterval c))
             = time_Add now (negate (metricsOffset c)) - sint (metricsInterval c))
     \<and> (\<forall>descriptors' units' err' j call'.
           metricDescriptorsFunction ext svc c now descriptors' = Some (units', err')
           \<and> j < length units'
           \<and> snd (uniqueDescriptors descriptors' [] ! j) = snd (uniqueDescriptors descriptors [] ! i)
           \<and> issued (units' ! j) = Some call' \<longrightarrow>
           call_IntervalStartTime call' = call_IntervalStartTime call
           \<and> call_IntervalEndTime call' = call_IntervalEndTime call)"
proof -
  let ?e = "time_Add now (negate (metricsOffset c))"
  let ?s = "time_Add ?e (negate (metricsInterval c))"
  let ?d = "snd (uniqueDescriptors descriptors [] ! i)"
  have window: "unit_interval ext c (snd (uniqueDescriptors ds [] ! k)) ?s ?e
      = Inr (call_IntervalStartTime cl, call_IntervalEndTime cl)"
    if "metricDescriptorsFunction ext svc c now ds = Some (us, er)" "k < length us"
      "issued (us ! k) = Some cl" for ds us er k cl
  proof -
    from metricDescriptorsFunction_units [OF that(1)] that(2)
    have u: "descriptor_unit ext svc c (snd (uniqueDescriptors ds [] ! k)) ?s ?e = Some (us ! k)"
      by simp
    from descriptor_unit_issued [OF u] that(3)
    have "timeSeriesListCall ext c (snd (uniqueDescriptors ds [] ! k)) ?s ?e = Inr cl"
      by (cases "timeSeriesListCall ext c (snd (uniqueDescriptors ds [] ! k)) ?s ?e") simp_all
    from timeSeriesListCall_Inr [OF this] show ?thesis by simp
  qed
  note own = unit_interval_cases [OF window [OF run i call]]
  have off: "- (2 ^ 63) < sint (metricsOffset c) \<longrightarrow> ?e = now - sint (metricsOffset c)"
    by (simp add: time_Add_def sint_negate)
  have int: "- (2 ^ 63) < sint (metricsInterval c) \<longrightarrow> ?s = ?e - sint (metricsInterval c)"
    by (simp add: time_Add_def sint_negate)
  have frame: "\<forall>descriptors' units' err' j call'.
           metricDescriptorsFunction ext svc c now descriptors' = Some (units', err')
           \<and> j < length units'
           \<and> snd (uniqueDescriptors descriptors' [] ! j) = ?d
           \<and> issued (units' ! j) = Some call' \<longrightarrow>
           call_IntervalStartTime call' = call_IntervalStartTime call
           \<and> call_IntervalEndTime call' = call_IntervalEndTime call"
  proof (intro allI impI)
    fix descriptors' units' err' j call'
    assume a: "metricDescriptorsFunction ext svc c now descriptors' = Some (units', err')
           \<and> j < length units'
           \<and> snd (uniqueDescriptors descriptors' [] ! j) = ?d
           \<and> issued (units' ! j) = Some call'"
    then have "unit_interval ext c ?d ?s ?e
        = Inr (call_IntervalStartTime call', call_IntervalEndTime call')"
      using window [of descriptors' units' err' j call'] by simp
    with window [OF run i call]
    show "call_IntervalStartTime call' = call_IntervalStartTime call
           \<and> call_IntervalEndTime call' = call_IntervalEndTime call"
      by simp
  qed
  from own off int frame show ?thesis by (simp only: simp_thms)
qed

text \<open>
  The theorem at two descriptors, the first with an ingest delay of one second and the
  second without one, at the unit of the second: its interval is the one that is not moved.
\<close>

theorem unit_interval_own_witness:
  "metricDescriptorsFunction example_ext example_service example_collector 600000000000
     [example_descriptor ''custom.googleapis.com/m'' ''1s'',
      example_descriptor ''custom.googleapis.com/k'' []]
   = Some ([\<lparr> issued = Some \<lparr> call_Filter =
                                  ''metric.type='' @ dquote @ ''custom.googleapis.com/m'' @ dquote,
                                call_IntervalStartTime = 299000000000,
                                call_IntervalEndTime = 599000000000,
                                call_Aggregation = None \<rparr>,
               samples = [], sent = None \<rparr>,
            \<lparr> issued = Some \<lparr> call_Filter =
                                  ''metric.type='' @ dquote @ ''custom.googleapis.com/k'' @ dquote,
                                call_IntervalStartTime = 300000000000,
                                call_IntervalEndTime = 600000000000,
                                call_Aggregation = None \<rparr>,
               samples = [], sent = None \<rparr>],
           None)
   \<and> time_Add (time_Add 600000000000 (negate (metricsOffset example_collector)))
        (negate (metricsInterval example_collector)) = 300000000000
   \<and> time_Add 600000000000 (negate (metricsOffset example_collector)) = 600000000000"
proof -
  let ?um = "\<lparr> issued = Some \<lparr> call_Filter =
                                  ''metric.type='' @ dquote @ ''custom.googleapis.com/m'' @ dquote,
                                call_IntervalStartTime = 299000000000,
                                call_IntervalEndTime = 599000000000,
                                call_Aggregation = None \<rparr>,
               samples = [], sent = None \<rparr>"
  let ?ck = "\<lparr> call_Filter = ''metric.type='' @ dquote @ ''custom.googleapis.com/k'' @ dquote,
               call_IntervalStartTime = 300000000000,
               call_IntervalEndTime = 600000000000,
               call_Aggregation = None \<rparr>"
  let ?uk = "\<lparr> issued = Some ?ck, samples = [], sent = None \<rparr>"
  let ?ds = "[example_descriptor ''custom.googleapis.com/m'' ''1s'',
      example_descriptor ''custom.googleapis.com/k'' []]"
  have run: "metricDescriptorsFunction example_ext example_service example_collector 600000000000
       ?ds = Some ([?um, ?uk], None)"
    by (simp add: orchestrator_simps example_simps example_timeSeries_pages AList.update.simps)
  have i: "(1::nat) < length [?um, ?uk]" by simp
  have call: "issued ([?um, ?uk] ! 1) = Some ?ck" by simp
  have d: "snd (uniqueDescriptors ?ds [] ! 1) = example_descriptor ''custom.googleapis.com/k'' []"
    by (simp add: example_descriptor_def AList.update.simps)
  have nodelay: "\<not> (metricsIngestDelay example_collector
            \<and> (\<exists>meta. md_Metadata (snd (uniqueDescriptors ?ds [] ! 1)) = Some meta
                  \<and> IngestDelay meta \<noteq> []))"
    unfolding d by (simp add: example_descriptor_def)
  from unit_interval_own [OF run i call, THEN conjunct1]
  have "call_IntervalStartTime ?ck =
          time_Add (time_Add 600000000000 (negate (metricsOffset example_collector)))
            (negate (metricsInterval example_collector))
      \<and> call_IntervalEndTime ?ck =
          time_Add 600000000000 (negate (metricsOffset example_collector))"
    by (simp only: nodelay if_False)
  then have "time_Add (time_Add 600000000000 (negate (metricsOffset example_collector)))
        (negate (metricsInterval example_collector)) = 300000000000
   \<and> time_Add 600000000000 (negate (metricsOffset example_collector)) = 600000000000"
    by (simp only: TimeSeriesListCall.simps)
  with run show ?thesis by blast
qed

end
